theory Spec2Isabelle
  imports Complex_Main "HOL-Library.Sublist"
begin

section \<open>JavaScript numbers and values\<close>

text \<open>
  A JavaScript number is modelled as an exact rational, or one of \<open>NaN\<close>, \<open>+Infinity\<close>,
  \<open>-Infinity\<close>. Rounding to 64-bit floats, overflow to infinity and the negative zero
  are not modelled. Strings are byte strings; only ASCII white space is trimmed.
\<close>

datatype jsnum = Fin rat | NaN | PosInf | NegInf

datatype jsval = JNum jsnum | JStr string | JBool bool | JNull | JUndefined

fun sign_num :: "jsnum \<Rightarrow> rat" where
  "sign_num (Fin a) = sgn a"
| "sign_num PosInf = 1"
| "sign_num NegInf = - 1"
| "sign_num NaN = 0"

definition inf_of_sign :: "rat \<Rightarrow> jsnum" where
  "inf_of_sign s = (if 0 < s then PosInf else if s < 0 then NegInf else NaN)"

fun num_neg :: "jsnum \<Rightarrow> jsnum" where
  "num_neg (Fin a) = Fin (- a)"
| "num_neg NaN = NaN"
| "num_neg PosInf = NegInf"
| "num_neg NegInf = PosInf"

fun num_add :: "jsnum \<Rightarrow> jsnum \<Rightarrow> jsnum" where
  "num_add (Fin a) (Fin b) = Fin (a + b)"
| "num_add NaN _ = NaN"
| "num_add _ NaN = NaN"
| "num_add PosInf NegInf = NaN"
| "num_add NegInf PosInf = NaN"
| "num_add PosInf _ = PosInf"
| "num_add _ PosInf = PosInf"
| "num_add NegInf _ = NegInf"
| "num_add _ NegInf = NegInf"

definition num_sub :: "jsnum \<Rightarrow> jsnum \<Rightarrow> jsnum" where
  "num_sub x y = num_add x (num_neg y)"

fun num_mul :: "jsnum \<Rightarrow> jsnum \<Rightarrow> jsnum" where
  "num_mul (Fin a) (Fin b) = Fin (a * b)"
| "num_mul NaN _ = NaN"
| "num_mul _ NaN = NaN"
| "num_mul x y = inf_of_sign (sign_num x * sign_num y)"

fun num_div :: "jsnum \<Rightarrow> jsnum \<Rightarrow> jsnum" where
  "num_div (Fin a) (Fin b) = (if b \<noteq> 0 then Fin (a / b) else inf_of_sign (sgn a))"
| "num_div NaN _ = NaN"
| "num_div _ NaN = NaN"
| "num_div (Fin a) _ = Fin 0"
| "num_div x (Fin b) = (if b = 0 then x else inf_of_sign (sign_num x * sgn b))"
| "num_div _ _ = NaN"

fun num_lt :: "jsnum \<Rightarrow> jsnum \<Rightarrow> bool" where
  "num_lt (Fin a) (Fin b) = (a < b)"
| "num_lt NaN _ = False"
| "num_lt _ NaN = False"
| "num_lt NegInf y = (y \<noteq> NegInf)"
| "num_lt x PosInf = (x \<noteq> PosInf)"
| "num_lt _ _ = False"

text \<open>The numbers that are falsy in a condition or under \<open>||\<close>: zero and \<open>NaN\<close>.\<close>

definition num_falsy :: "jsnum \<Rightarrow> bool" where
  "num_falsy x = (x = Fin 0 \<or> x = NaN)"

subsection \<open>Number(string)\<close>

definition is_ws :: "char \<Rightarrow> bool" where
  "is_ws c = (c \<in> set [CHR 0x09, CHR 0x0A, CHR 0x0B, CHR 0x0C, CHR 0x0D, CHR '' ''])"

definition trim :: "string \<Rightarrow> string" where
  "trim s = rev (dropWhile is_ws (rev (dropWhile is_ws s)))"

definition hex_val :: "char \<Rightarrow> nat option" where
  "hex_val c =
     (let n = (of_char c :: nat) in
      if 48 \<le> n \<and> n \<le> 57 then Some (n - 48)
      else if 97 \<le> n \<and> n \<le> 102 then Some (n - 87)
      else if 65 \<le> n \<and> n \<le> 70 then Some (n - 55)
      else None)"

definition is_digit :: "char \<Rightarrow> bool" where
  "is_digit c = (48 \<le> (of_char c :: nat) \<and> (of_char c :: nat) \<le> 57)"

definition digits_val :: "nat \<Rightarrow> string \<Rightarrow> nat" where
  "digits_val radix ds = foldl (\<lambda>a c. radix * a + the (hex_val c)) 0 ds"

definition radix_literal :: "nat \<Rightarrow> string \<Rightarrow> jsnum" where
  "radix_literal radix ds =
     (if ds \<noteq> [] \<and> list_all (\<lambda>c. case hex_val c of Some d \<Rightarrow> d < radix | None \<Rightarrow> False) ds
      then Fin (of_nat (digits_val radix ds)) else NaN)"

definition exponent_part :: "string \<Rightarrow> int option" where
  "exponent_part s =
     (case s of
        [] \<Rightarrow> Some 0
      | c # r \<Rightarrow>
          if c = CHR ''e'' \<or> c = CHR ''E'' then
            (let (neg, ds) = (case r of
                                [] \<Rightarrow> (False, [])
                              | d # r' \<Rightarrow> if d = CHR ''-'' then (True, r')
                                         else if d = CHR ''+'' then (False, r') else (False, r))
             in if ds \<noteq> [] \<and> list_all is_digit ds
                then Some ((if neg then - 1 else 1) * int (digits_val 10 ds)) else None)
          else None)"

definition pow10 :: "int \<Rightarrow> rat" where
  "pow10 e = (if 0 \<le> e then 10 ^ nat e else 1 / 10 ^ nat (- e))"

definition unsigned_decimal :: "string \<Rightarrow> jsnum" where
  "unsigned_decimal s =
     (if s = ''Infinity'' then PosInf
      else
        let ip = takeWhile is_digit s; r1 = dropWhile is_digit s;
            fp = (case r1 of [] \<Rightarrow> [] | c # r \<Rightarrow> if c = CHR ''.'' then takeWhile is_digit r else []);
            r2 = (case r1 of [] \<Rightarrow> [] | c # r \<Rightarrow> if c = CHR ''.'' then dropWhile is_digit r else r1)
        in if ip = [] \<and> fp = [] then NaN
           else (case exponent_part r2 of
                   None \<Rightarrow> NaN
                 | Some e \<Rightarrow>
                     Fin (of_nat (digits_val 10 (ip @ fp)) * pow10 (e - int (length fp)))))"

definition str_to_number :: "string \<Rightarrow> jsnum" where
  "str_to_number s0 =
     (let s = trim s0 in
      case s of
        [] \<Rightarrow> Fin 0
      | c # r \<Rightarrow>
          if c = CHR ''+'' then unsigned_decimal r
          else if c = CHR ''-'' then num_neg (unsigned_decimal r)
          else if c = CHR ''0'' \<and> r \<noteq> [] \<and> hd r \<in> set ''xX'' then radix_literal 16 (tl r)
          else if c = CHR ''0'' \<and> r \<noteq> [] \<and> hd r \<in> set ''oO'' then radix_literal 8 (tl r)
          else if c = CHR ''0'' \<and> r \<noteq> [] \<and> hd r \<in> set ''bB'' then radix_literal 2 (tl r)
          else unsigned_decimal s)"

subsection \<open>String(number), coercions and operators\<close>

text \<open>
  Numbers are rendered in plain decimal notation with at most twenty fractional digits;
  the exponent notation of very large and very small numbers is not modelled.
\<close>

definition digit_char :: "nat \<Rightarrow> char" where
  "digit_char d = char_of (48 + d)"

fun nat_digits :: "nat \<Rightarrow> string" where
  "nat_digits n = (if n < 10 then [digit_char n] else nat_digits (n div 10) @ [digit_char (n mod 10)])"

fun frac_digits :: "nat \<Rightarrow> rat \<Rightarrow> string" where
  "frac_digits 0 r = []"
| "frac_digits (Suc k) r =
     (if r = 0 then []
      else let d = \<lfloor>r * 10\<rfloor> in digit_char (nat d) # frac_digits k (r * 10 - of_int d))"

definition pos_to_string :: "rat \<Rightarrow> string" where
  "pos_to_string q =
     (let f = frac_digits 20 (q - of_int \<lfloor>q\<rfloor>)
      in nat_digits (nat \<lfloor>q\<rfloor>) @ (if f = [] then [] else CHR ''.'' # f))"

fun num_to_string :: "jsnum \<Rightarrow> string" where
  "num_to_string (Fin q) = (if q < 0 then CHR ''-'' # pos_to_string (- q) else pos_to_string q)"
| "num_to_string NaN = ''NaN''"
| "num_to_string PosInf = ''Infinity''"
| "num_to_string NegInf = ''-Infinity''"

fun to_number :: "jsval \<Rightarrow> jsnum" where
  "to_number (JNum n) = n"
| "to_number (JStr s) = str_to_number s"
| "to_number (JBool b) = Fin (if b then 1 else 0)"
| "to_number JNull = Fin 0"
| "to_number JUndefined = NaN"

fun to_string :: "jsval \<Rightarrow> string" where
  "to_string (JNum n) = num_to_string n"
| "to_string (JStr s) = s"
| "to_string (JBool b) = (if b then ''true'' else ''false'')"
| "to_string JNull = ''null''"
| "to_string JUndefined = ''undefined''"

fun is_str :: "jsval \<Rightarrow> bool" where
  "is_str (JStr _) = True"
| "is_str _ = False"

text \<open>The operator \<open>+\<close> (and \<open>+=\<close>): concatenation as soon as one operand is a string.\<close>

definition js_add :: "jsval \<Rightarrow> jsval \<Rightarrow> jsval" where
  "js_add a b =
     (if is_str a \<or> is_str b then JStr (to_string a @ to_string b)
      else JNum (num_add (to_number a) (to_number b)))"

text \<open>The operator \<open>/\<close>: both operands are converted to numbers.\<close>

definition js_div :: "jsval \<Rightarrow> jsval \<Rightarrow> jsnum" where
  "js_div a b = num_div (to_number a) (to_number b)"

subsection \<open>Decoded query strings\<close>

text \<open>
  A value of a decoded query string (\<open>ParsedQs\<close>): a string, an array, or a nested object
  whose keys are listed in enumeration order.
\<close>

datatype qsval = QStr string | QArr "qsval list" | QObj "(string \<times> qsval) list"

fun join :: "string \<Rightarrow> string list \<Rightarrow> string" where
  "join sep [] = []"
| "join sep [x] = x"
| "join sep (x # y # ys) = x @ sep @ join sep (y # ys)"

fun qs_toString :: "qsval \<Rightarrow> string" where
  "qs_toString (QStr s) = s"
| "qs_toString (QArr xs) = join '','' (map qs_toString xs)"
| "qs_toString (QObj kvs) = ''[object Object]''"

text \<open>\<open>Number(v)\<close> for an optional query value; a missing key reads as \<open>undefined\<close>.\<close>

fun qs_Number :: "qsval option \<Rightarrow> jsnum" where
  "qs_Number None = NaN"
| "qs_Number (Some v) = str_to_number (qs_toString v)"

section \<open>Products, reviews and the store\<close>

text \<open>
  The controller works on the product document that the store returns and writes it back.
  The identifier of an appended entry is generated by the store and is an argument of the
  operation.
\<close>

record review =
  review_id :: string
  user :: string
  name :: string
  rating :: jsval
  comment :: jsval

record product =
  reviews :: "review list"
  ratings :: jsnum
  numOfReviews :: nat

type_synonym db = "string \<rightharpoonup> product"

datatype error = ErrorHandler string nat | SyntaxError

record review_request =
  req_user_id :: string
  req_user_name :: string
  body_rating :: jsval
  body_comment :: jsval
  body_productId :: string

text \<open>The loop \<open>reviews.forEach(rev => { avg += rev.rating })\<close>, starting from \<open>avg = 0\<close>.\<close>

definition sum_ratings :: "review list \<Rightarrow> jsval" where
  "sum_ratings rs = foldl (\<lambda>avg rev. js_add avg (rating rev)) (JNum (Fin 0)) rs"

definition list_length :: "'a list \<Rightarrow> jsval" where
  "list_length xs = JNum (Fin (of_nat (length xs)))"

text \<open>
  Modelled from the spec: the product schema (\<open>models/productModel\<close>) is not part of the
  sources. The spec gives a review a numeric rating and a product a numeric average, and
  \<open>docs/DATABASE_SCHEMA.md\<close> declares \<open>reviews[].rating\<close> and \<open>ratings\<close> as \<open>Number\<close>: a
  value written to one of these fields of the loaded document is cast to a number. The cast
  reads strings and booleans as \<open>Number()\<close> does, turns the empty string into \<open>null\<close>,
  lets \<open>null\<close> and \<open>undefined\<close> through and fails on \<open>NaN\<close>; a value whose cast fails is
  not written, and the document is saved without validation. The cast of the other fields
  (the comment is kept as submitted) is not modelled.
\<close>

fun cast_number :: "jsval \<Rightarrow> jsval option" where
  "cast_number (JNum n) = (if n = NaN then None else Some (JNum n))"
| "cast_number (JStr s) =
     (if s = [] then Some JNull
      else if str_to_number s = NaN then None else Some (JNum (str_to_number s)))"
| "cast_number (JBool b) = Some (JNum (Fin (if b then 1 else 0)))"
| "cast_number JNull = Some JNull"
| "cast_number JUndefined = Some JUndefined"

text \<open>The assignment \<open>rev.rating = v\<close> on a review of the document.\<close>

definition set_rating :: "jsval \<Rightarrow> review \<Rightarrow> review" where
  "set_rating v r = (case cast_number v of Some w \<Rightarrow> r\<lparr>rating := w\<rparr> | None \<Rightarrow> r)"

text \<open>The assignment \<open>product.ratings = n\<close> on the document.\<close>

definition set_ratings :: "jsnum \<Rightarrow> product \<Rightarrow> product" where
  "set_ratings n p = (if n = NaN then p else p\<lparr>ratings := n\<rparr>)"

text \<open>
  \<open>product.reviews.push(review)\<close>: the pushed object becomes a review of the document,
  its rating written through the cast.
\<close>

definition as_subdocument :: "review \<Rightarrow> review" where
  "as_subdocument r = set_rating (rating r) (r\<lparr>rating := JUndefined\<rparr>)"

definition createProductReview :: "string \<Rightarrow> review_request \<Rightarrow> db \<Rightarrow> error + db" where
  "createProductReview new_id req db =
     (let review = \<lparr>review_id = new_id, user = req_user_id req, name = req_user_name req,
                     rating = JNum (to_number (body_rating req)), comment = body_comment req\<rparr>
      in case db (body_productId req) of
           None \<Rightarrow> Inl (ErrorHandler ''Product not found'' 404)
         | Some product \<Rightarrow>
             let isReviewed = find (\<lambda>rev. user rev = req_user_id req) (reviews product);
                 product1 =
                   (if isReviewed \<noteq> None
                    then product\<lparr>reviews :=
                           map (\<lambda>rev. if user rev = req_user_id req
                                       then (set_rating (body_rating req) rev)
                                              \<lparr>comment := body_comment req\<rparr>
                                       else rev) (reviews product)\<rparr>
                    else product\<lparr>reviews := reviews product @ [as_subdocument review],
                                 numOfReviews := length (reviews product @ [as_subdocument review])\<rparr>);
                 avg = sum_ratings (reviews product1);
                 product2 = set_ratings (js_div avg (list_length (reviews product1))) product1
             in Inr (db(body_productId req \<mapsto> product2)))"

definition deleteReview :: "(string \<times> qsval) list \<Rightarrow> db \<Rightarrow> error + db" where
  "deleteReview query db =
     (let productId = map_option qs_toString (map_of query ''productId'');
          reviewId = map_option qs_toString (map_of query ''id'')
      in if productId = None \<or> productId = Some [] \<or> reviewId = None \<or> reviewId = Some []
         then Inl (ErrorHandler ''Product ID and Review ID are required'' 400)
         else case db (the productId) of
                None \<Rightarrow> Inl (ErrorHandler ''Product not found'' 404)
              | Some product \<Rightarrow>
                  let reviews' = filter (\<lambda>rev. review_id rev \<noteq> the reviewId) (reviews product);
                      avg = sum_ratings reviews';
                      ratings' = (if length reviews' = 0 then Fin 0
                                  else js_div avg (list_length reviews'));
                      numOfReviews' = length reviews'
                  in Inr (db(the productId \<mapsto>
                        product\<lparr>reviews := reviews', ratings := ratings',
                                numOfReviews := numOfReviews'\<rparr>)))"




section \<open>The query features: search, filter, pagination\<close>

subsection \<open>JSON.stringify on query values\<close>

definition hex_char :: "nat \<Rightarrow> char" where
  "hex_char d = (if d < 10 then char_of (48 + d) else char_of (87 + d))"

definition esc_char :: "char \<Rightarrow> string" where
  "esc_char c =
     (if c = CHR 0x22 then [CHR 0x5C, CHR 0x22]
      else if c = CHR 0x5C then [CHR 0x5C, CHR 0x5C]
      else if c = CHR 0x08 then [CHR 0x5C, CHR ''b'']
      else if c = CHR 0x0C then [CHR 0x5C, CHR ''f'']
      else if c = CHR 0x0A then [CHR 0x5C, CHR ''n'']
      else if c = CHR 0x0D then [CHR 0x5C, CHR ''r'']
      else if c = CHR 0x09 then [CHR 0x5C, CHR ''t'']
      else if (of_char c :: nat) < 32
      then [CHR 0x5C, CHR ''u'', CHR ''0'', CHR ''0'',
            hex_char (of_char c div 16), hex_char (of_char c mod 16)]
      else [c])"

definition escape :: "string \<Rightarrow> string" where
  "escape s = concat (map esc_char s)"

definition quote :: "string \<Rightarrow> string" where
  "quote s = CHR 0x22 # escape s @ [CHR 0x22]"

fun JSON_stringify :: "qsval \<Rightarrow> string"
  and stringify_elems :: "qsval list \<Rightarrow> string"
  and stringify_members :: "(string \<times> qsval) list \<Rightarrow> string" where
  "JSON_stringify (QStr s) = quote s"
| "JSON_stringify (QArr xs) = CHR ''['' # stringify_elems xs @ '']''"
| "JSON_stringify (QObj kvs) = CHR ''{'' # stringify_members kvs @ ''}''"
| "stringify_elems [] = []"
| "stringify_elems [x] = JSON_stringify x"
| "stringify_elems (x # y # ys) = JSON_stringify x @ CHR '','' # stringify_elems (y # ys)"
| "stringify_members [] = []"
| "stringify_members [(k, v)] = quote k @ CHR '':'' # JSON_stringify v"
| "stringify_members ((k, v) # m # ms) =
     quote k @ CHR '':'' # JSON_stringify v @ CHR '','' # stringify_members (m # ms)"

subsection \<open>The replacement of the bare words gt, gte, lt, lte\<close>

definition is_word_char :: "char \<Rightarrow> bool" where
  "is_word_char c =
     (let n = (of_char c :: nat) in
      (48 \<le> n \<and> n \<le> 57) \<or> (65 \<le> n \<and> n \<le> 90) \<or> (97 \<le> n \<and> n \<le> 122) \<or> n = 95)"

definition operators :: "string list" where
  "operators = [''gt'', ''gte'', ''lt'', ''lte'']"

definition mark :: "string \<Rightarrow> string" where
  "mark w = (if w \<in> set operators then CHR ''$'' # w else w)"

text \<open>
  \<open>str.replace(/\b(gt|gte|lt|lte)\b/g, key => `$${key}`)\<close>: the text is cut into maximal
  runs of word characters; a run that is one of the four words gets the prefix \<open>$\<close>.
  The first argument is the run read so far.
\<close>

fun replace_run :: "string \<Rightarrow> string \<Rightarrow> string" where
  "replace_run w [] = mark w"
| "replace_run w (c # cs) =
     (if is_word_char c then replace_run (w @ [c]) cs
      else mark w @ c # replace_run [] cs)"

definition replace_operators :: "string \<Rightarrow> string" where
  "replace_operators s = replace_run [] s"

subsection \<open>JSON.parse on the rewritten text\<close>

text \<open>
  The parser accepts the JSON texts made of objects, arrays and strings without white
  space between tokens, which is what \<open>JSON.stringify\<close> produces from a query value;
  every other text is a \<open>SyntaxError\<close> here. Escapes \<open>\uXXXX\<close> are read for code
  points below 128. A repeated key keeps its first position and takes the last value.
\<close>

definition simple_escape :: "char \<Rightarrow> char option" where
  "simple_escape e =
     (if e = CHR 0x22 \<or> e = CHR 0x5C \<or> e = CHR ''/'' then Some e
      else if e = CHR ''b'' then Some (CHR 0x08)
      else if e = CHR ''f'' then Some (CHR 0x0C)
      else if e = CHR ''n'' then Some (CHR 0x0A)
      else if e = CHR ''r'' then Some (CHR 0x0D)
      else if e = CHR ''t'' then Some (CHR 0x09)
      else None)"

definition unicode_escape :: "char \<Rightarrow> char \<Rightarrow> char \<Rightarrow> char \<Rightarrow> char option" where
  "unicode_escape a b c d =
     (case (hex_val a, hex_val b, hex_val c, hex_val d) of
        (Some x, Some y, Some z, Some w) \<Rightarrow>
          (let n = ((x * 16 + y) * 16 + z) * 16 + w in if n < 128 then Some (char_of n) else None)
      | _ \<Rightarrow> None)"

fun parse_string_body :: "string \<Rightarrow> (string \<times> string) option" where
  "parse_string_body [] = None"
| "parse_string_body [c] = (if c = CHR 0x22 then Some ([], []) else None)"
| "parse_string_body (c # e # cs) =
     (if c = CHR 0x22 then Some ([], e # cs)
      else if c = CHR 0x5C then
        (if e = CHR ''u'' then
           (case cs of
              a # b # c' # d # r \<Rightarrow>
                (case unicode_escape a b c' d of
                   None \<Rightarrow> None
                 | Some u \<Rightarrow> map_option (\<lambda>(s, t). (u # s, t)) (parse_string_body r))
            | _ \<Rightarrow> None)
         else
           (case simple_escape e of
              None \<Rightarrow> None
            | Some u \<Rightarrow> map_option (\<lambda>(s, t). (u # s, t)) (parse_string_body cs)))
      else if (of_char c :: nat) < 32 then None
      else map_option (\<lambda>(s, t). (c # s, t)) (parse_string_body (e # cs)))"

definition set_member :: "string \<Rightarrow> qsval \<Rightarrow> (string \<times> qsval) list \<Rightarrow> (string \<times> qsval) list" where
  "set_member k v kvs =
     (if k \<in> fst ` set kvs then map (\<lambda>(k', v'). if k' = k then (k', v) else (k', v')) kvs
      else kvs @ [(k, v)])"

definition object_of :: "(string \<times> qsval) list \<Rightarrow> (string \<times> qsval) list" where
  "object_of kvs = foldl (\<lambda>acc (k, v). set_member k v acc) [] kvs"

fun parse_value :: "nat \<Rightarrow> string \<Rightarrow> (qsval \<times> string) option"
  and parse_elems :: "nat \<Rightarrow> string \<Rightarrow> (qsval list \<times> string) option"
  and parse_members :: "nat \<Rightarrow> string \<Rightarrow> ((string \<times> qsval) list \<times> string) option" where
  "parse_value 0 cs = None"
| "parse_value (Suc n) [] = None"
| "parse_value (Suc n) (c # cs) =
     (if c = CHR 0x22 then map_option (\<lambda>(s, r). (QStr s, r)) (parse_string_body cs)
      else if c = CHR ''['' then
        (case cs of
           [] \<Rightarrow> None
         | d # r \<Rightarrow> if d = CHR '']'' then Some (QArr [], r)
                    else map_option (\<lambda>(vs, r'). (QArr vs, r')) (parse_elems n cs))
      else if c = CHR ''{'' then
        (case cs of
           [] \<Rightarrow> None
         | d # r \<Rightarrow> if d = CHR ''}'' then Some (QObj [], r)
                    else map_option (\<lambda>(kvs, r'). (QObj (object_of kvs), r')) (parse_members n cs))
      else None)"
| "parse_elems 0 cs = None"
| "parse_elems (Suc n) cs =
     (case parse_value n cs of
        None \<Rightarrow> None
      | Some (v, r) \<Rightarrow>
          (case r of
             [] \<Rightarrow> None
           | d # r' \<Rightarrow>
               if d = CHR '']'' then Some ([v], r')
               else if d = CHR '','' then map_option (\<lambda>(vs, t). (v # vs, t)) (parse_elems n r')
               else None))"
| "parse_members 0 cs = None"
| "parse_members (Suc n) cs =
     (case cs of
        [] \<Rightarrow> None
      | q # cs' \<Rightarrow>
          if q \<noteq> CHR 0x22 then None
          else
            (case parse_string_body cs' of
               None \<Rightarrow> None
             | Some (k, r) \<Rightarrow>
                 (case r of
                    [] \<Rightarrow> None
                  | col # r1 \<Rightarrow>
                      if col \<noteq> CHR '':'' then None
                      else
                        (case parse_value n r1 of
                           None \<Rightarrow> None
                         | Some (v, r2) \<Rightarrow>
                             (case r2 of
                                [] \<Rightarrow> None
                              | d # r3 \<Rightarrow>
                                  if d = CHR ''}'' then Some ([(k, v)], r3)
                                  else if d = CHR '','' then
                                    map_option (\<lambda>(kvs, t). ((k, v) # kvs, t)) (parse_members n r3)
                                  else None)))))"

text \<open>The whole text must be one value; the fuel is the length of the text.\<close>

definition JSON_parse :: "string \<Rightarrow> qsval option" where
  "JSON_parse text =
     (case parse_value (Suc (length text)) text of
        Some (v, []) \<Rightarrow> Some v
      | _ \<Rightarrow> None)"

subsection \<open>The query handle and the three operations\<close>

text \<open>
  The query handle records what the operations ask of it: the conditions passed to
  \<open>find\<close>, in call order, and the arguments of the last \<open>limit\<close> and \<open>skip\<close>.
\<close>

record query_handle =
  find_calls :: "qsval list"
  limit_call :: "jsnum option"
  skip_call :: "jsnum option"

definition find_q :: "qsval \<Rightarrow> query_handle \<Rightarrow> query_handle" where
  "find_q cond q = q\<lparr>find_calls := find_calls q @ [cond]\<rparr>"

definition limit_q :: "jsnum \<Rightarrow> query_handle \<Rightarrow> query_handle" where
  "limit_q n q = q\<lparr>limit_call := Some n\<rparr>"

definition skip_q :: "jsnum \<Rightarrow> query_handle \<Rightarrow> query_handle" where
  "skip_q n q = q\<lparr>skip_call := Some n\<rparr>"

record ApiFeatures =
  query :: query_handle
  queryStr :: "(string \<times> qsval) list"

text \<open>A query value is falsy only when it is missing or the empty string.\<close>

fun qs_truthy :: "qsval option \<Rightarrow> bool" where
  "qs_truthy None = False"
| "qs_truthy (Some (QStr s)) = (s \<noteq> [])"
| "qs_truthy (Some _) = True"

definition search :: "ApiFeatures \<Rightarrow> ApiFeatures" where
  "search this =
     (let keyword =
            (if qs_truthy (map_of (queryStr this) ''keyword'')
             then [(''name'', QObj [(''$regex'', the (map_of (queryStr this) ''keyword'')),
                                    (''$options'', QStr ''i'')])]
             else [])
      in this\<lparr>query := find_q (QObj keyword) (query this)\<rparr>)"

definition removeFields :: "string list" where
  "removeFields = [''keyword'', ''page'', ''limit'']"

definition delete_key :: "string \<Rightarrow> (string \<times> qsval) list \<Rightarrow> (string \<times> qsval) list" where
  "delete_key key obj = filter (\<lambda>(k, v). k \<noteq> key) obj"

definition filter_op :: "ApiFeatures \<Rightarrow> error + ApiFeatures" where
  "filter_op this =
     (let queryCopy = foldl (\<lambda>obj key. delete_key key obj) (queryStr this) removeFields;
          queryStr1 = JSON_stringify (QObj queryCopy);
          queryStr2 = replace_operators queryStr1
      in case JSON_parse queryStr2 of
           None \<Rightarrow> Inl SyntaxError
         | Some cond \<Rightarrow> Inr (this\<lparr>query := find_q cond (query this)\<rparr>))"

definition pagination :: "jsnum \<Rightarrow> ApiFeatures \<Rightarrow> ApiFeatures" where
  "pagination resultPerPage this =
     (let n = qs_Number (map_of (queryStr this) ''page'');
          currentPage = (if num_falsy n then Fin 1 else n);
          skip = num_mul resultPerPage (num_sub currentPage (Fin 1))
      in this\<lparr>query := skip_q skip (limit_q resultPerPage (query this))\<rparr>)"

definition new_query :: query_handle where
  "new_query = \<lparr>find_calls = [], limit_call = None, skip_call = None\<rparr>"

definition new_ApiFeatures :: "query_handle \<Rightarrow> (string \<times> qsval) list \<Rightarrow> ApiFeatures" where
  "new_ApiFeatures q qs = \<lparr>query = q, queryStr = qs\<rparr>"

subsection \<open>The filter's rewriting, stated on the values\<close>

text \<open>
  These functions do not come from the sources: they describe, on the query values
  themselves, what stringify, replacement and parse achieve together, and the theorems
  below prove that they do. A run of word characters that is one of the four words gets
  the prefix \<open>$\<close>, unless the run follows a control character: such a character is
  serialized as an escape that ends in a letter or digit, which joins the run.
\<close>

text \<open>Characters that stand for themselves inside a JSON string.\<close>

definition plain_char :: "char \<Rightarrow> bool" where
  "plain_char c = (c \<noteq> CHR 0x22 \<and> c \<noteq> CHR 0x5C \<and> 32 \<le> (of_char c :: nat))"

definition flush :: "bool \<Rightarrow> string \<Rightarrow> string" where
  "flush clean w = (if clean then mark w else w)"

fun replace_run_from :: "bool \<Rightarrow> string \<Rightarrow> string \<Rightarrow> string" where
  "replace_run_from clean w [] = flush clean w"
| "replace_run_from clean w (c # cs) =
     (if is_word_char c then replace_run_from clean (w @ [c]) cs
      else flush clean w @ c # replace_run_from True [] cs)"

fun rewrite_run :: "bool \<Rightarrow> string \<Rightarrow> string \<Rightarrow> string" where
  "rewrite_run clean w [] = flush clean w"
| "rewrite_run clean w (c # cs) =
     (if is_word_char c then rewrite_run clean (w @ [c]) cs
      else flush clean w @ c # rewrite_run (32 \<le> (of_char c :: nat)) [] cs)"

definition rewrite_string :: "string \<Rightarrow> string" where
  "rewrite_string s = rewrite_run True [] s"

fun rewrite_value :: "qsval \<Rightarrow> qsval" where
  "rewrite_value (QStr s) = QStr (rewrite_string s)"
| "rewrite_value (QArr xs) = QArr (map rewrite_value xs)"
| "rewrite_value (QObj kvs) =
     QObj (object_of (map (\<lambda>(k, v). (rewrite_string k, rewrite_value v)) kvs))"

section \<open>The store's reading of a query\<close>

text \<open>
  Modelled from the spec: what a recorded condition selects is decided by the store, that
  is by the query engine and by the product schema (\<open>models/productModel\<close>), neither of
  which is part of the sources. This section models it as far as the operations above
  need it, for documents with text and number fields. A range condition expresses numeric
  bounds on a field: \<open>$gt\<close>, \<open>$gte\<close>, \<open>$lt\<close>, \<open>$lte\<close> compare the number field with the
  operand read as a number, and a string compared with a number field is read as a number.
  \<open>$regex\<close> is the unanchored regular-expression search that the source asks for; of
  the regular-expression syntax only ordinary characters and the dot are modelled, and
  letter case is folded for ASCII letters.
  \<open>None\<close> marks everything the model leaves open.
\<close>

type_synonym document = "(string \<times> jsval) list"

definition lower :: "char \<Rightarrow> char" where
  "lower c = (let n = (of_char c :: nat) in if 65 \<le> n \<and> n \<le> 90 then char_of (n + 32) else c)"

definition regex_special :: "char \<Rightarrow> bool" where
  "regex_special c = (c \<in> set (CHR 0x5C # ''^$.|?*+()[]{}''))"

definition atom_match :: "bool \<Rightarrow> char \<Rightarrow> char \<Rightarrow> bool" where
  "atom_match ci p c =
     (if p = CHR ''.'' then c \<noteq> CHR 0x0A else if ci then lower p = lower c else p = c)"

fun match_here :: "bool \<Rightarrow> string \<Rightarrow> string \<Rightarrow> bool" where
  "match_here ci [] t = True"
| "match_here ci (p # ps) [] = False"
| "match_here ci (p # ps) (c # cs) = (atom_match ci p c \<and> match_here ci ps cs)"

fun match_anywhere :: "bool \<Rightarrow> string \<Rightarrow> string \<Rightarrow> bool" where
  "match_anywhere ci ps [] = match_here ci ps []"
| "match_anywhere ci ps (c # cs) = (match_here ci ps (c # cs) \<or> match_anywhere ci ps cs)"

definition regex_test :: "string \<Rightarrow> string \<Rightarrow> string \<Rightarrow> bool option" where
  "regex_test pattern options text =
     (if list_all (\<lambda>p. p = CHR ''.'' \<or> \<not> regex_special p) pattern
         \<and> (options = [] \<or> options = ''i'')
      then Some (match_anywhere (options = ''i'') pattern text) else None)"

definition compare_op :: "string \<Rightarrow> rat \<Rightarrow> rat \<Rightarrow> bool option" where
  "compare_op op x y =
     (if op = ''$gt'' then Some (y < x)
      else if op = ''$gte'' then Some (y \<le> x)
      else if op = ''$lt'' then Some (x < y)
      else if op = ''$lte'' then Some (x \<le> y)
      else None)"

fun all_some :: "bool option list \<Rightarrow> bool option" where
  "all_some [] = Some True"
| "all_some (None # bs) = None"
| "all_some (Some b # bs) = map_option (\<lambda>r. b \<and> r) (all_some bs)"

definition operand_holds :: "rat \<Rightarrow> string \<times> qsval \<Rightarrow> bool option" where
  "operand_holds x entry =
     (case entry of
        (op, QStr s) \<Rightarrow> (case str_to_number s of Fin y \<Rightarrow> compare_op op x y | _ \<Rightarrow> None)
      | _ \<Rightarrow> None)"

definition field_holds :: "jsval option \<Rightarrow> qsval \<Rightarrow> bool option" where
  "field_holds fv c =
     (case c of
        QStr s \<Rightarrow>
          (case fv of
             Some (JStr t) \<Rightarrow> Some (t = s)
           | Some (JNum (Fin x)) \<Rightarrow> (case str_to_number s of Fin y \<Rightarrow> Some (x = y) | _ \<Rightarrow> None)
           | _ \<Rightarrow> None)
      | QArr _ \<Rightarrow> None
      | QObj ops \<Rightarrow>
          (case map_of ops ''$regex'' of
             Some (QStr p) \<Rightarrow>
               (case (fv, map_of ops ''$options'') of
                  (Some (JStr t), Some (QStr opts)) \<Rightarrow>
                    if length ops = 2 then regex_test p opts t else None
                | _ \<Rightarrow> None)
           | Some _ \<Rightarrow> None
           | None \<Rightarrow>
               (case fv of
                  Some (JNum (Fin x)) \<Rightarrow> all_some (map (operand_holds x) ops)
                | _ \<Rightarrow> None)))"

definition cond_holds :: "document \<Rightarrow> qsval \<Rightarrow> bool option" where
  "cond_holds doc cond =
     (case cond of
        QObj kvs \<Rightarrow> all_some (map (\<lambda>(k, c). field_holds (map_of doc k) c) kvs)
      | _ \<Rightarrow> None)"

text \<open>The documents that satisfy every recorded condition, in the order of the collection.\<close>

definition matching :: "qsval list \<Rightarrow> document list \<Rightarrow> document list option" where
  "matching conds docs =
     (if list_all (\<lambda>d. list_all (\<lambda>c. cond_holds d c \<noteq> None) conds) docs
      then Some (filter (\<lambda>d. list_all (\<lambda>c. cond_holds d c = Some True) conds) docs)
      else None)"



subsection \<open>Example data\<close>

definition alice_review :: review where
  "alice_review = \<lparr>review_id = ''r1'', user = ''u1'', name = ''Alice'',
                    rating = JNum (Fin 5), comment = JStr ''good''\<rparr>"





definition one_review :: product where
  "one_review = \<lparr>reviews = [alice_review], ratings = Fin 5, numOfReviews = 1\<rparr>"



definition alice_again :: "jsval \<Rightarrow> review_request" where
  "alice_again r = \<lparr>req_user_id = ''u1'', req_user_name = ''Alice'', body_rating = r,
                     body_comment = JStr ''changed mind'', body_productId = ''p1''\<rparr>"

definition dave_request :: "jsval \<Rightarrow> review_request" where
  "dave_request r = \<lparr>req_user_id = ''u4'', req_user_name = ''Dave'', body_rating = r,
                      body_comment = JStr ''new'', body_productId = ''p1''\<rparr>"

definition delete_query :: "string \<Rightarrow> string \<Rightarrow> (string \<times> qsval) list" where
  "delete_query pid rid = [(''productId'', QStr pid), (''id'', QStr rid)]"

definition price_range :: "(string \<times> qsval) list" where
  "price_range = [(''price'', QObj [(''gte'', QStr ''100''), (''lte'', QStr ''500'')])]"

definition price_cond :: qsval where
  "price_cond = QObj [(''price'', QObj [(''$gte'', QStr ''100''), (''$lte'', QStr ''500'')])]"

definition keyword_cond :: "string \<Rightarrow> qsval" where
  "keyword_cond kw = QObj [(''name'', QObj [(''$regex'', QStr kw), (''$options'', QStr ''i'')])]"

definition blue_widget :: document where
  "blue_widget = [(''name'', JStr ''Blue Widget''), (''price'', JNum (Fin 100))]"

definition red_gadget :: document where
  "red_gadget = [(''name'', JStr ''red gadget''), (''price'', JNum (Fin 501))]"

definition listing_params :: "(string \<times> qsval) list" where
  "listing_params = [(''keyword'', QStr ''x''), (''page'', QStr ''2''), (''limit'', QStr ''10''),
                     (''category'', QStr ''Books'')]"

section \<open>Properties of the review operations\<close>

subsection \<open>One review per user\<close>

lemma user_set_rating [simp]: "user (set_rating v r) = user r"
  by (simp add: set_rating_def split: option.splits)

lemma map_user_update:
  "map user (map (\<lambda>rev. if user rev = u then (set_rating v rev)\<lparr>comment := c\<rparr> else rev) rs)
   = map user rs"
  by (induction rs) auto

lemma one_entry_of_user:
  "distinct (map user rs) \<Longrightarrow> u \<in> user ` set rs \<Longrightarrow> length (filter (\<lambda>rev. user rev = u) rs) = 1"
proof (induction rs)
  case Nil
  then show ?case by simp
next
  case (Cons a rs)
  show ?case
  proof (cases "user a = u")
    case True
    with Cons.prems have "u \<notin> user ` set rs" by auto
    then have "filter (\<lambda>rev. user rev = u) rs = []" by (auto simp: filter_empty_conv)
    with True show ?thesis by simp
  next
    case False
    with Cons show ?thesis by auto
  qed
qed

lemma filter_user_update:
  "filter (\<lambda>rev. user rev = u)
     (map (\<lambda>rev. if user rev = u then (set_rating v rev)\<lparr>comment := c\<rparr> else rev) rs)
   = map (\<lambda>rev. (set_rating v rev)\<lparr>comment := c\<rparr>) (filter (\<lambda>rev. user rev = u) rs)"
  by (induction rs) auto

lemma set_rating_finite: "set_rating (JNum (Fin q)) r = r\<lparr>rating := JNum (Fin q)\<rparr>"
  by (simp add: set_rating_def)

text \<open>
  Claim C2. On a product on which no user has two reviews, \<open>createProductReview\<close>
  completes and no user has two reviews afterwards. When the submitting user already has a
  review, that entry gets the submitted rating, through the cast of the schema, and the
  submitted comment in place: the list keeps its length, the stored count is not touched,
  and exactly one entry of that user results. Otherwise one entry is appended.
\<close>

theorem createProductReview_one_review_per_user:
  assumes "db (body_productId req) = Some p"
    and "distinct (map user (reviews p))"
  shows "\<exists>p'. createProductReview new_id req db = Inr (db(body_productId req \<mapsto> p'))
           \<and> distinct (map user (reviews p'))
           \<and> (if req_user_id req \<in> user ` set (reviews p)
              then reviews p' = map (\<lambda>rev. if user rev = req_user_id req
                                        then (set_rating (body_rating req) rev)
                                               \<lparr>comment := body_comment req\<rparr>
                                        else rev) (reviews p)
                 \<and> length (reviews p') = length (reviews p)
                 \<and> numOfReviews p' = numOfReviews p
                 \<and> length (filter (\<lambda>rev. user rev = req_user_id req) (reviews p')) = 1
              else length (reviews p') = Suc (length (reviews p)))"
proof (cases "req_user_id req \<in> user ` set (reviews p)")
  case True
  define rs where "rs = map (\<lambda>rev. if user rev = req_user_id req
                                        then (set_rating (body_rating req) rev)
                                               \<lparr>comment := body_comment req\<rparr>
                                        else rev) (reviews p)"
  define p' where "p' = set_ratings (js_div (sum_ratings rs) (list_length rs)) (p\<lparr>reviews := rs\<rparr>)"
  from True have f: "find (\<lambda>rev. user rev = req_user_id req) (reviews p) \<noteq> None"
    by (auto simp: find_None_iff)
  have run: "createProductReview new_id req db = Inr (db(body_productId req \<mapsto> p'))"
    using assms(1) f by (simp add: createProductReview_def Let_def p'_def rs_def)
  have users: "map user rs = map user (reviews p)"
    by (simp add: rs_def map_user_update)
  have one: "length (filter (\<lambda>rev. user rev = req_user_id req) rs) = 1"
    using assms(2) True by (simp add: rs_def filter_user_update one_entry_of_user)
  have "reviews p' = rs" "numOfReviews p' = numOfReviews p" "length rs = length (reviews p)"
    by (simp_all add: p'_def rs_def set_ratings_def)
  with run users one assms(2) True show ?thesis
    unfolding rs_def [symmetric] by (intro exI [of _ p']) simp
next
  case False
  define rs where "rs = reviews p @ [as_subdocument \<lparr>review_id = new_id, user = req_user_id req,
      name = req_user_name req, rating = JNum (to_number (body_rating req)),
      comment = body_comment req\<rparr>]"
  define p' where "p' = set_ratings (js_div (sum_ratings rs) (list_length rs))
      (p\<lparr>reviews := rs, numOfReviews := length rs\<rparr>)"
  from False have f: "find (\<lambda>rev. user rev = req_user_id req) (reviews p) = None"
    by (force simp: find_None_iff)
  have run: "createProductReview new_id req db = Inr (db(body_productId req \<mapsto> p'))"
    using assms(1) f by (simp add: createProductReview_def Let_def p'_def rs_def)
  have "distinct (map user rs)"
    using assms(2) False by (simp add: rs_def image_iff as_subdocument_def)
  moreover have "reviews p' = rs" "length rs = Suc (length (reviews p))"
    by (simp_all add: p'_def rs_def set_ratings_def)
  ultimately show ?thesis
    using run False by (intro exI [of _ p']) simp
qed

theorem createProductReview_one_review_per_user_witness:
  "[''p1'' \<mapsto> one_review] (body_productId (alice_again (JNum (Fin 2)))) = Some one_review
   \<and> distinct (map user (reviews one_review))
   \<and> (\<exists>p'. createProductReview ''r9'' (alice_again (JNum (Fin 2))) [''p1'' \<mapsto> one_review]
              = Inr ([''p1'' \<mapsto> one_review](body_productId (alice_again (JNum (Fin 2))) \<mapsto> p'))
           \<and> distinct (map user (reviews p'))
           \<and> (if req_user_id (alice_again (JNum (Fin 2))) \<in> user ` set (reviews one_review)
              then reviews p' = map (\<lambda>rev. if user rev = req_user_id (alice_again (JNum (Fin 2)))
                                        then (set_rating (body_rating (alice_again (JNum (Fin 2)))) rev)
                                               \<lparr>comment := body_comment (alice_again (JNum (Fin 2)))\<rparr>
                                        else rev) (reviews one_review)
                 \<and> length (reviews p') = length (reviews one_review)
                 \<and> numOfReviews p' = numOfReviews one_review
                 \<and> length (filter (\<lambda>rev. user rev = req_user_id (alice_again (JNum (Fin 2)))) (reviews p')) = 1
              else length (reviews p') = Suc (length (reviews one_review))))
   \<and> createProductReview ''r9'' (alice_again (JNum (Fin 2))) [''p1'' \<mapsto> one_review]
       = Inr [''p1'' \<mapsto> \<lparr>reviews = [alice_review\<lparr>rating := JNum (Fin 2),
                                                    comment := JStr ''changed mind''\<rparr>],
                            ratings = Fin 2, numOfReviews = 1\<rparr>]"
proof -
  have h1: "[''p1'' \<mapsto> one_review] (body_productId (alice_again (JNum (Fin 2)))) = Some one_review"
    by (simp add: alice_again_def)
  have h2: "distinct (map user (reviews one_review))"
    by (simp add: one_review_def)
  have run: "createProductReview ''r9'' (alice_again (JNum (Fin 2))) [''p1'' \<mapsto> one_review]
       = Inr [''p1'' \<mapsto> \<lparr>reviews = [alice_review\<lparr>rating := JNum (Fin 2),
                                                    comment := JStr ''changed mind''\<rparr>],
                            ratings = Fin 2, numOfReviews = 1\<rparr>]"
    by (simp add: createProductReview_def Let_def alice_again_def one_review_def alice_review_def
        set_rating_def set_ratings_def sum_ratings_def list_length_def js_add_def js_div_def)
  from createProductReview_one_review_per_user
         [where db = "[''p1'' \<mapsto> one_review]" and req = "alice_again (JNum (Fin 2))"
            and p = one_review and new_id = "''r9''", OF h1 h2] h1 h2 run
  show ?thesis by blast
qed

subsection \<open>Removing reviews\<close>

lemma query_ids:
  "map_option qs_toString (map_of (delete_query pid rid) ''productId'') = Some pid"
  "map_option qs_toString (map_of (delete_query pid rid) ''id'') = Some rid"
  by (simp_all add: delete_query_def)

text \<open>
  Claim C8. Removing the only review of a product by its identifier stores the empty list,
  the count 0 and the rating 0: the empty case assigns zero and performs no division.
\<close>

theorem deleteReview_only_review:
  assumes "db pid = Some p" and "reviews p = [r]" and "pid \<noteq> []" and "review_id r \<noteq> []"
  shows "deleteReview (delete_query pid (review_id r)) db
         = Inr (db(pid \<mapsto> p\<lparr>reviews := [], ratings := Fin 0, numOfReviews := 0\<rparr>))"
  using assms by (simp add: deleteReview_def query_ids Let_def)

theorem deleteReview_only_review_witness:
  "[''p1'' \<mapsto> one_review] ''p1'' = Some one_review \<and> reviews one_review = [alice_review]
   \<and> ''p1'' \<noteq> [] \<and> review_id alice_review \<noteq> []
   \<and> deleteReview (delete_query ''p1'' (review_id alice_review)) [''p1'' \<mapsto> one_review]
       = Inr ([''p1'' \<mapsto> one_review](''p1'' \<mapsto> one_review\<lparr>reviews := [], ratings := Fin 0, numOfReviews := 0\<rparr>))"
proof -
  have h1: "[''p1'' \<mapsto> one_review] ''p1'' = Some one_review" by simp
  have h2: "reviews one_review = [alice_review]" by (simp add: one_review_def)
  have h3: "''p1'' \<noteq> []" by simp
  have h4: "review_id alice_review \<noteq> []" by (simp add: alice_review_def)
  from deleteReview_only_review
         [where db = "[''p1'' \<mapsto> one_review]" and pid = "''p1''" and p = one_review
            and r = alice_review, OF h1 h2 h3 h4] h1 h2 h3 h4
  show ?thesis by blast
qed






subsection \<open>The stored rating and the mean of the ratings\<close>



lemma reviews_set_ratings [simp]: "reviews (set_ratings n p) = reviews p"
  by (simp add: set_ratings_def)











subsection \<open>The two writes of the rating\<close>


lemma cast_numeric_string:
  "s \<noteq> [] \<Longrightarrow> str_to_number s = Fin x \<Longrightarrow> cast_number (JStr s) = Some (JNum (Fin x))"
  by simp




section \<open>Properties of the query features\<close>

subsection \<open>Range filter\<close>

lemma price_range_text:
  "JSON_parse (replace_operators (JSON_stringify (QObj price_range))) = Some price_cond"
  unfolding price_range_def price_cond_def by code_simp

lemma price_range_kept:
  "foldl (\<lambda>obj key. delete_key key obj) price_range removeFields = price_range"
  by (simp add: price_range_def removeFields_def delete_key_def)

lemma bounds_as_numbers: "str_to_number ''100'' = Fin 100" "str_to_number ''500'' = Fin 500"
  by code_simp+

lemma price_cond_holds:
  "cond_holds ((''price'', JNum (Fin x)) # doc) price_cond = Some (100 \<le> x \<and> x \<le> 500)"
  by (simp add: cond_holds_def price_cond_def field_holds_def operand_holds_def
      bounds_as_numbers compare_op_def)

text \<open>
  Claim C3. On the parameters \<open>{price: {gte: "100", lte: "500"}}\<close> the filter passes the
  condition \<open>{price: {$gte: "100", $lte: "500"}}\<close> to the query handle. Under the store's
  reading of a range condition on a number field it holds exactly for the prices between
  100 and 500: not for 99, for 100, for 500, not for 501.
\<close>

theorem filter_price_range:
  "filter_op (new_ApiFeatures q price_range)
     = Inr \<lparr>query = find_q price_cond q, queryStr = price_range\<rparr>
   \<and> cond_holds ((''price'', JNum (Fin x)) # doc) price_cond = Some (100 \<le> x \<and> x \<le> 500)
   \<and> cond_holds ((''price'', JNum (Fin 99)) # doc) price_cond = Some False
   \<and> cond_holds ((''price'', JNum (Fin 100)) # doc) price_cond = Some True
   \<and> cond_holds ((''price'', JNum (Fin 500)) # doc) price_cond = Some True
   \<and> cond_holds ((''price'', JNum (Fin 501)) # doc) price_cond = Some False"
  by (simp add: filter_op_def new_ApiFeatures_def price_range_kept price_range_text
      price_cond_holds del: JSON_stringify.simps)

subsection \<open>Pagination\<close>

lemma page_numbers:
  "str_to_number ''0'' = Fin 0" "str_to_number ''3'' = Fin 3" "str_to_number ''1'' = Fin 1"
  "str_to_number ''abc'' = NaN" "str_to_number ''-1'' = Fin (- 1)"
  by code_simp+

text \<open>
  Claim C4 says that a page of 0 gives a negative skip. The page 0 is falsy, so
  \<open>Number(page) || 1\<close> is 1 and the skip is 0.
\<close>

theorem pagination_page_zero_counterexample:
  "skip_call (query (pagination (Fin 5) (new_ApiFeatures new_query [(''page'', QStr ''0'')])))
     = Some (Fin 0)
   \<and> num_lt (Fin 0) (Fin 5) \<and> \<not> num_lt (Fin 0) (Fin 0)"
  by (simp add: pagination_def new_ApiFeatures_def new_query_def skip_q_def limit_q_def
      page_numbers num_falsy_def num_sub_def)

lemma negative_skip:
  assumes "num_lt (Fin 0) n" and "num_lt p (Fin 0)"
  shows "num_lt (num_mul n (num_sub p (Fin 1))) (Fin 0)"
proof -
  from assms(2) consider q where "p = Fin q" "q < 0" | "p = NegInf"
    by (cases p) auto
  then show ?thesis
  proof cases
    case 1
    from assms(1) consider a where "n = Fin a" "0 < a" | "n = PosInf"
      by (cases n) auto
    then show ?thesis
    proof cases
      case 1
      with \<open>p = Fin q\<close> \<open>q < 0\<close> show ?thesis
        by (simp add: num_sub_def mult_pos_neg)
    next
      case 2
      with \<open>p = Fin q\<close> \<open>q < 0\<close> show ?thesis
        by (simp add: num_sub_def inf_of_sign_def)
    qed
  next
    case 2
    from assms(1) consider a where "n = Fin a" "0 < a" | "n = PosInf"
      by (cases n) auto
    then show ?thesis
      using 2 by cases (simp_all add: num_sub_def inf_of_sign_def)
  qed
qed

text \<open>
  Claim C4, amended. For every positive page size, a page parameter that reads as a
  negative number gives a negative skip; a page parameter that reads as 0 is replaced by
  the default page 1 and gives the skip \<open>pageSize * 0\<close>.
\<close>

theorem pagination_negative_page:
  assumes "num_lt (Fin 0) n"
  shows "(if num_lt (qs_Number (map_of (queryStr this) ''page'')) (Fin 0)
          then \<exists>k. skip_call (query (pagination n this)) = Some k \<and> num_lt k (Fin 0)
          else if qs_Number (map_of (queryStr this) ''page'') = Fin 0
          then skip_call (query (pagination n this)) = Some (num_mul n (Fin 0))
          else True)"
proof (cases "num_lt (qs_Number (map_of (queryStr this) ''page'')) (Fin 0)")
  case True
  then have "\<not> num_falsy (qs_Number (map_of (queryStr this) ''page''))"
    by (auto simp: num_falsy_def)
  with True assms show ?thesis
    by (simp add: pagination_def Let_def skip_q_def limit_q_def negative_skip)
next
  case False
  then show ?thesis
    by (simp add: pagination_def Let_def skip_q_def limit_q_def num_falsy_def num_sub_def)
qed

theorem pagination_negative_page_witness:
  "num_lt (Fin 0) (Fin 5)
   \<and> (if num_lt (qs_Number (map_of (queryStr (new_ApiFeatures new_query [(''page'', QStr ''-1'')])) ''page'')) (Fin 0)
       then \<exists>k. skip_call (query (pagination (Fin 5) (new_ApiFeatures new_query [(''page'', QStr ''-1'')]))) = Some k
                \<and> num_lt k (Fin 0)
       else if qs_Number (map_of (queryStr (new_ApiFeatures new_query [(''page'', QStr ''-1'')])) ''page'') = Fin 0
       then skip_call (query (pagination (Fin 5) (new_ApiFeatures new_query [(''page'', QStr ''-1'')])))
              = Some (num_mul (Fin 5) (Fin 0))
       else True)
   \<and> num_lt (qs_Number (map_of (queryStr (new_ApiFeatures new_query [(''page'', QStr ''-1'')])) ''page'')) (Fin 0)"
proof -
  have h: "num_lt (Fin 0) (Fin 5)" by simp
  have neg: "num_lt (qs_Number (map_of (queryStr (new_ApiFeatures new_query [(''page'', QStr ''-1'')])) ''page'')) (Fin 0)"
    by (simp add: new_ApiFeatures_def page_numbers)
  from pagination_negative_page [OF h, of "new_ApiFeatures new_query [(''page'', QStr ''-1'')]"] h neg
  show ?thesis by blast
qed



lemma find_calls_pagination: "find_calls (query (pagination n this)) = find_calls (query this)"
  by (simp add: pagination_def Let_def skip_q_def limit_q_def)



subsection \<open>Keyword search\<close>

lemma match_here_prefix:
  "list_all (\<lambda>c. \<not> regex_special c) ps \<Longrightarrow>
   match_here True ps t = prefix (map lower ps) (map lower t)"
proof (induction ps arbitrary: t)
  case Nil
  then show ?case by simp
next
  case (Cons p ps)
  then have "p \<noteq> CHR ''.''" by (simp add: regex_special_def)
  with Cons show ?case
    by (cases t) (simp_all add: atom_match_def)
qed

lemma match_anywhere_sublist:
  "list_all (\<lambda>c. \<not> regex_special c) ps \<Longrightarrow>
   match_anywhere True ps t = sublist (map lower ps) (map lower t)"
proof (induction t)
  case Nil
  then show ?case by (cases ps) simp_all
next
  case (Cons c cs)
  then show ?case
    by (simp add: match_here_prefix sublist_Cons_right del: match_here.simps)
qed

lemma keyword_cond_holds:
  assumes "list_all (\<lambda>c. \<not> regex_special c) kw"
  shows "cond_holds ((''name'', JStr n) # doc) (keyword_cond kw)
         = Some (sublist (map lower kw) (map lower n))"
proof -
  have "list_all (\<lambda>p. p = CHR ''.'' \<or> \<not> regex_special p) kw"
    using assms by (simp add: list_all_iff)
  then show ?thesis
    using assms
    by (simp add: cond_holds_def keyword_cond_def field_holds_def regex_test_def
        match_anywhere_sublist)
qed

lemma empty_condition_holds: "cond_holds d (QObj []) = Some True"
  by (simp add: cond_holds_def)

lemma matching_empty_condition:
  "matching (conds @ [QObj []]) docs = matching conds docs"
proof -
  have "(\<exists>y::bool. y)" by blast
  then show ?thesis by (simp add: matching_def empty_condition_holds)
qed

text \<open>
  Claim C7 says that a keyword selects exactly the names that contain it. The keyword is
  passed as a regular expression: the keyword \<open>.\<close> selects the name \<open>red gadget\<close>, which
  does not contain a dot.
\<close>

theorem search_dot_counterexample:
  "search (new_ApiFeatures new_query [(''keyword'', QStr ''.'')])
     = \<lparr>query = find_q (keyword_cond ''.'') new_query, queryStr = [(''keyword'', QStr ''.'')]\<rparr>
   \<and> cond_holds red_gadget (keyword_cond ''.'') = Some True
   \<and> map_of red_gadget ''name'' = Some (JStr ''red gadget'')
   \<and> \<not> sublist (map lower ''.'') (map lower ''red gadget'')"
  by (simp add: search_def new_ApiFeatures_def keyword_cond_def cond_holds_def red_gadget_def
      field_holds_def regex_test_def regex_special_def atom_match_def lower_def
      sublist_Cons_right)

text \<open>
  Claim C7, amended. For a keyword that is a non-empty string without regular-expression
  metacharacters, \<open>search()\<close> passes the condition \<open>{name: {$regex: keyword, $options: "i"}}\<close>,
  which holds exactly for the names that contain the keyword, letter case ignored. When
  the keyword is absent, \<open>search()\<close> passes the empty condition, which every document
  satisfies, and the matching documents are the same as before.
\<close>

theorem search_keyword:
  assumes "map_of (queryStr a) ''keyword'' = Some (QStr kw)" and "kw \<noteq> []"
    and "list_all (\<lambda>c. \<not> regex_special c) kw"
    and "map_of (queryStr b) ''keyword'' = None"
  shows "search a = a\<lparr>query := find_q (keyword_cond kw) (query a)\<rparr>
         \<and> cond_holds ((''name'', JStr n) # doc) (keyword_cond kw)
             = Some (sublist (map lower kw) (map lower n))
         \<and> search b = b\<lparr>query := find_q (QObj []) (query b)\<rparr>
         \<and> cond_holds doc (QObj []) = Some True
         \<and> matching (find_calls (query (search b))) docs = matching (find_calls (query b)) docs"
proof -
  have sa: "search a = a\<lparr>query := find_q (keyword_cond kw) (query a)\<rparr>"
    using assms(1,2) by (simp add: search_def keyword_cond_def)
  have sb: "search b = b\<lparr>query := find_q (QObj []) (query b)\<rparr>"
    using assms(4) by (simp add: search_def)
  have "matching (find_calls (query (search b))) docs = matching (find_calls (query b)) docs"
    by (simp add: sb find_q_def matching_empty_condition)
  with sa sb keyword_cond_holds [OF assms(3)] empty_condition_holds show ?thesis
    by simp
qed

lemma lower_examples:
  "map lower ''WIDGET'' = ''widget''" "map lower ''Blue Widget'' = ''blue widget''"
  "map lower ''red gadget'' = ''red gadget''"
  by code_simp+

theorem search_keyword_witness:
  "map_of (queryStr (new_ApiFeatures new_query [(''keyword'', QStr ''WIDGET'')])) ''keyword''
     = Some (QStr ''WIDGET'')
   \<and> ''WIDGET'' \<noteq> [] \<and> list_all (\<lambda>c. \<not> regex_special c) ''WIDGET''
   \<and> map_of (queryStr (new_ApiFeatures new_query [])) ''keyword'' = None
   \<and> cond_holds ((''name'', JStr ''Blue Widget'') # []) (keyword_cond ''WIDGET'')
       = Some (sublist (map lower ''WIDGET'') (map lower ''Blue Widget''))
   \<and> sublist (map lower ''WIDGET'') (map lower ''Blue Widget'')
   \<and> cond_holds ((''name'', JStr ''red gadget'') # []) (keyword_cond ''WIDGET'')
       = Some (sublist (map lower ''WIDGET'') (map lower ''red gadget''))
   \<and> \<not> sublist (map lower ''WIDGET'') (map lower ''red gadget'')
   \<and> matching (find_calls (query (search (new_ApiFeatures new_query [])))) [blue_widget, red_gadget]
       = matching (find_calls (query (new_ApiFeatures new_query []))) [blue_widget, red_gadget]"
proof -
  let ?a = "new_ApiFeatures new_query [(''keyword'', QStr ''WIDGET'')]"
  let ?b = "new_ApiFeatures new_query []"
  have h1: "map_of (queryStr ?a) ''keyword'' = Some (QStr ''WIDGET'')"
    and h2: "''WIDGET'' \<noteq> []"
    and h3: "list_all (\<lambda>c. \<not> regex_special c) ''WIDGET''"
    and h4: "map_of (queryStr ?b) ''keyword'' = None"
    by (simp_all add: new_ApiFeatures_def regex_special_def)
  have yes: "sublist (map lower ''WIDGET'') (map lower ''Blue Widget'')"
    and no: "\<not> sublist (map lower ''WIDGET'') (map lower ''red gadget'')"
    unfolding lower_examples by (simp_all add: sublist_Cons_right)
  note w1 = search_keyword [where n = "''Blue Widget''" and doc = "[]"
      and docs = "[blue_widget, red_gadget]", OF h1 h2 h3 h4]
  note w2 = search_keyword [where n = "''red gadget''" and doc = "[]"
      and docs = "[blue_widget, red_gadget]", OF h1 h2 h3 h4]
  from w1 w2 h1 h2 h3 h4 yes no show ?thesis by blast
qed

subsection \<open>Stringify, replace, parse: the round trip\<close>

lemma mark_Nil [simp]: "mark [] = []"
  by (simp add: mark_def operators_def)

lemma replace_run_word_prefix:
  "list_all is_word_char e \<Longrightarrow> replace_run_from clean w (e @ cs) = replace_run_from clean (w @ e) cs"
  by (induction e arbitrary: w) simp_all

lemma replace_run_from_True: "replace_run_from True w cs = replace_run w cs"
  by (induction cs arbitrary: w) (simp_all add: flush_def)

lemma replace_run_split:
  "\<not> is_word_char c \<Longrightarrow>
   replace_run_from clean w (a @ c # b) = replace_run_from clean w a @ c # replace_run_from True [] b"
  by (induction a arbitrary: w clean) simp_all

lemma word_char_plain: "is_word_char c \<Longrightarrow> plain_char c"
  by (auto simp: is_word_char_def plain_char_def Let_def)

lemma parse_plain_char:
  "plain_char c \<Longrightarrow>
   parse_string_body (c # rest) = map_option (\<lambda>(s, t). (c # s, t)) (parse_string_body rest)"
  by (cases rest) (auto simp: plain_char_def)

lemma parse_plain_prefix:
  "list_all plain_char p \<Longrightarrow>
   parse_string_body (p @ rest) = map_option (\<lambda>(s, t). (p @ s, t)) (parse_string_body rest)"
proof (induction p)
  case Nil
  show ?case by (cases "parse_string_body rest") auto
next
  case (Cons c p)
  then show ?case
    by (cases "parse_string_body rest") (auto simp: parse_plain_char)
qed

lemma hex_val_hex_char: "d < 16 \<Longrightarrow> hex_val (hex_char d) = Some d"
  by (auto simp: hex_val_def hex_char_def Let_def)

lemma unicode_escape_control:
  assumes "(of_char c :: nat) < 32"
  shows "unicode_escape (CHR ''0'') (CHR ''0'') (hex_char (of_char c div 16)) (hex_char (of_char c mod 16))
         = Some c"
proof -
  have z: "hex_val (CHR ''0'') = Some 0" by (simp add: hex_val_def)
  have a: "hex_val (hex_char (of_char c div 16)) = Some (of_char c div 16)"
    using assms by (intro hex_val_hex_char) simp
  have b: "hex_val (hex_char (of_char c mod 16)) = Some (of_char c mod 16)"
    by (intro hex_val_hex_char) simp
  have "(of_char c :: nat) div 16 * 16 + of_char c mod 16 = of_char c" by simp
  with assms z a b show ?thesis
    by (simp add: unicode_escape_def)
qed

lemma parse_escaped_char:
  "parse_string_body (esc_char c @ rest) = map_option (\<lambda>(s, t). (c # s, t)) (parse_string_body rest)"
proof (cases "plain_char c")
  case True
  then have "esc_char c = [c]"
    by (auto simp: esc_char_def plain_char_def)
  with True show ?thesis by (simp add: parse_plain_char)
next
  case False
  show ?thesis
  proof (cases "c \<in> set [CHR 0x22, CHR 0x5C, CHR 0x08, CHR 0x0C, CHR 0x0A, CHR 0x0D, CHR 0x09]")
    case True
    then show ?thesis
      by (auto simp: esc_char_def simple_escape_def)
  next
    case other: False
    with False have ctl: "(of_char c :: nat) < 32"
      by (auto simp: plain_char_def)
    from other have "esc_char c = [CHR 0x5C, CHR ''u'', CHR ''0'', CHR ''0'',
            hex_char (of_char c div 16), hex_char (of_char c mod 16)]"
      using ctl by (simp add: esc_char_def)
    then show ?thesis
      by (simp add: unicode_escape_control [OF ctl])
  qed
qed


lemma parse_closing_quote: "parse_string_body (CHR 0x22 # t) = Some ([], t)"
  by (cases t) simp_all

lemma flush_plain:
  assumes "list_all is_word_char w"
  shows "list_all plain_char (flush clean w)"
proof -
  have "list_all plain_char w"
    using assms by (auto simp: list_all_iff intro: word_char_plain)
  moreover have "plain_char (CHR ''$'')" by (simp add: plain_char_def)
  ultimately show ?thesis by (simp add: flush_def mark_def)
qed

lemma tainted_run_not_operator:
  "e \<noteq> [] \<Longrightarrow> hd e \<noteq> CHR ''g'' \<Longrightarrow> hd e \<noteq> CHR ''l'' \<Longrightarrow> mark (e @ w) = e @ w"
  by (cases e) (auto simp: mark_def operators_def)

lemma replace_run_tainted:
  assumes "e \<noteq> []" and "hd e \<noteq> CHR ''g''" and "hd e \<noteq> CHR ''l''"
  shows "replace_run_from True (e @ w) cs = e @ replace_run_from False w cs"
proof (induction cs arbitrary: w)
  case Nil
  show ?case by (simp add: flush_def tainted_run_not_operator [OF assms])
next
  case (Cons c cs)
  from Cons [of "w @ [c]"] show ?case
    by (simp add: flush_def tainted_run_not_operator [OF assms])
qed

lemma hex_char_word: "d < 16 \<Longrightarrow> is_word_char (hex_char d)"
  by (auto simp: is_word_char_def hex_char_def Let_def)

lemma escape_letters_word:
  "is_word_char (CHR ''b'')" "is_word_char (CHR ''f'')" "is_word_char (CHR ''n'')"
  "is_word_char (CHR ''r'')" "is_word_char (CHR ''t'')" "is_word_char (CHR ''u'')"
  "is_word_char (CHR ''0'')"
  by (simp_all add: is_word_char_def)

lemma esc_control:
  assumes "(of_char c :: nat) < 32"
  shows "\<exists>e. esc_char c = CHR 0x5C # e \<and> e \<noteq> [] \<and> list_all is_word_char e
             \<and> hd e \<noteq> CHR ''g'' \<and> hd e \<noteq> CHR ''l''"
proof -
  have q: "c \<noteq> CHR 0x22" "c \<noteq> CHR 0x5C" using assms by auto
  show ?thesis
  proof (cases "c \<in> set [CHR 0x08, CHR 0x0C, CHR 0x0A, CHR 0x0D, CHR 0x09]")
    case True
    then show ?thesis
      by (auto simp: esc_char_def escape_letters_word)
  next
    case False
    have h: "is_word_char (hex_char (of_char c div 16))" "is_word_char (hex_char (of_char c mod 16))"
      using assms by (auto intro!: hex_char_word)
    from False q assms have "esc_char c = [CHR 0x5C, CHR ''u'', CHR ''0'', CHR ''0'',
            hex_char (of_char c div 16), hex_char (of_char c mod 16)]"
      by (simp add: esc_char_def)
    with h show ?thesis by (simp add: escape_letters_word)
  qed
qed

lemma plain_not_escaped: "plain_char c \<Longrightarrow> esc_char c = [c]"
  by (auto simp: esc_char_def plain_char_def)

lemma quote_not_word: "\<not> is_word_char (CHR 0x22)"
  by (simp add: is_word_char_def)

lemma backslash_not_word: "\<not> is_word_char (CHR 0x5C)"
  by (simp add: is_word_char_def)

lemma esc_not_control:
  assumes "\<not> (of_char c :: nat) < 32"
  shows "esc_char c = [c] \<or> esc_char c = [CHR 0x5C, c] \<and> \<not> is_word_char c"
proof (cases "plain_char c")
  case True
  then show ?thesis by (simp add: plain_not_escaped)
next
  case False
  with assms have "c = CHR 0x22 \<or> c = CHR 0x5C" by (auto simp: plain_char_def)
  then show ?thesis
    by (auto simp: esc_char_def quote_not_word backslash_not_word)
qed

lemma replace_run_escaped:
  assumes "\<not> is_word_char c"
  shows "replace_run_from clean w (esc_char c @ rest)
         = flush clean w @ esc_char c @ replace_run_from (32 \<le> (of_char c :: nat)) [] rest"
proof (cases "(of_char c :: nat) < 32")
  case True
  from esc_control [OF True] obtain e where e: "esc_char c = CHR 0x5C # e" "e \<noteq> []"
    "list_all is_word_char e" "hd e \<noteq> CHR ''g''" "hd e \<noteq> CHR ''l''" by blast
  have "replace_run_from True [] (e @ rest) = replace_run_from True ([] @ e) rest"
    using e(3) by (rule replace_run_word_prefix)
  also have "\<dots> = e @ replace_run_from False [] rest"
    using replace_run_tainted [OF e(2,4,5), of "[]"] by simp
  finally show ?thesis
    using True e(1) by (simp add: backslash_not_word flush_def)
next
  case False
  with esc_not_control [OF False] assms show ?thesis
    by (auto simp: backslash_not_word flush_def)
qed

lemma word_char_not_escaped: "is_word_char c \<Longrightarrow> esc_char c = [c]"
  by (simp add: word_char_plain plain_not_escaped)

lemma parse_rewritten_string:
  "list_all is_word_char w \<Longrightarrow>
   parse_string_body (replace_run_from clean w (escape s) @ CHR 0x22 # t)
     = Some (rewrite_run clean w s, t)"
proof (induction s arbitrary: clean w)
  case Nil
  then show ?case
    by (simp add: escape_def parse_plain_prefix flush_plain parse_closing_quote)
next
  case (Cons c s)
  show ?case
  proof (cases "is_word_char c")
    case True
    with Cons.prems have "list_all is_word_char (w @ [c])" by simp
    from Cons.IH [OF this] True show ?thesis
      by (simp add: escape_def word_char_not_escaped)
  next
    case False
    have "parse_string_body (replace_run_from clean w (escape (c # s)) @ CHR 0x22 # t)
          = parse_string_body (flush clean w @ esc_char c
              @ replace_run_from (32 \<le> (of_char c :: nat)) [] (escape s) @ CHR 0x22 # t)"
      using replace_run_escaped [OF False] by (simp add: escape_def)
    also have "\<dots> = Some (flush clean w @ c # rewrite_run (32 \<le> (of_char c :: nat)) [] s, t)"
      using Cons.IH [of "[]"] Cons.prems
      by (simp add: parse_plain_prefix flush_plain parse_escaped_char)
    finally show ?thesis using False by simp
  qed
qed

lemma replaced_nonword_head:
  "\<not> is_word_char c \<Longrightarrow> replace_run [] (c # x) = c # replace_run [] x"
  by simp

lemma replace_run_split_plain:
  "\<not> is_word_char c \<Longrightarrow> replace_run w (a @ c # b) = replace_run w a @ c # replace_run [] b"
  using replace_run_split [of c True w a b] by (simp add: replace_run_from_True)

lemma replaced_quote:
  "replace_run [] (quote s @ x)
   = CHR 0x22 # replace_run_from True [] (escape s) @ CHR 0x22 # replace_run [] x"
  by (simp add: quote_def quote_not_word replace_run_split_plain replace_run_from_True)

lemma parse_replaced_quote:
  "parse_string_body (tl (replace_run [] (quote s @ x))) = Some (rewrite_string s, replace_run [] x)"
  by (simp add: replaced_quote parse_rewritten_string rewrite_string_def)

lemma structural_not_word:
  "\<not> is_word_char (CHR ''['')" "\<not> is_word_char (CHR '']'')" "\<not> is_word_char (CHR ''{'')"
  "\<not> is_word_char (CHR ''}'')" "\<not> is_word_char (CHR '','')" "\<not> is_word_char (CHR '':'')"
  by (simp_all add: is_word_char_def)

lemma stringify_nonempty: "JSON_stringify v \<noteq> []"
  by (cases v) (simp_all add: quote_def)

lemma replaced_value_head:
  "\<exists>c r. replace_run [] (JSON_stringify v @ x) = c # r \<and> c \<noteq> CHR '']'' \<and> c \<noteq> CHR ''}''"
  by (cases v) (simp_all add: replaced_quote structural_not_word)

lemma replaced_quote_head:
  "\<exists>r. replace_run [] (quote k @ x) = CHR 0x22 # r"
  by (simp add: replaced_quote)


lemma replaced_elems_head:
  assumes "xs \<noteq> []"
  shows "\<exists>c r. replace_run [] (stringify_elems xs @ x) = c # r \<and> c \<noteq> CHR '']''"
proof (cases xs)
  case Nil
  with assms show ?thesis by simp
next
  case (Cons v ys)
  show ?thesis
  proof (cases ys)
    case Nil
    with Cons replaced_value_head [of v x] show ?thesis by auto
  next
    case (Cons y zs)
    with \<open>xs = v # ys\<close> replaced_value_head [of v "CHR '','' # stringify_elems (y # zs) @ x"]
    show ?thesis by auto
  qed
qed

lemma replaced_members_head:
  assumes "kvs \<noteq> []"
  shows "\<exists>r. replace_run [] (stringify_members kvs @ x) = CHR 0x22 # r"
proof (cases kvs)
  case Nil
  with assms show ?thesis by simp
next
  case (Cons kv ys)
  obtain k v where kv: "kv = (k, v)" by (cases kv)
  show ?thesis
  proof (cases ys)
    case Nil
    with Cons kv replaced_quote_head [of k "CHR '':'' # JSON_stringify v @ x"] show ?thesis by auto
  next
    case (Cons y zs)
    with \<open>kvs = kv # ys\<close> kv
      replaced_quote_head [of k "CHR '':'' # JSON_stringify v @ CHR '','' # stringify_members (y # zs) @ x"]
    show ?thesis by auto
  qed
qed

lemma parse_replaced:
  "\<forall>n x. length (JSON_stringify v) \<le> n \<longrightarrow>
     parse_value n (replace_run [] (JSON_stringify v @ x)) = Some (rewrite_value v, replace_run [] x)"
  "\<forall>n x. xs \<noteq> [] \<longrightarrow> length (stringify_elems xs) < n \<longrightarrow>
     parse_elems n (replace_run [] (stringify_elems xs @ CHR '']'' # x))
       = Some (map rewrite_value xs, replace_run [] x)"
  "\<forall>n x. kvs \<noteq> [] \<longrightarrow> length (stringify_members kvs) < n \<longrightarrow>
     parse_members n (replace_run [] (stringify_members kvs @ CHR ''}'' # x))
       = Some (map (\<lambda>(k, v). (rewrite_string k, rewrite_value v)) kvs, replace_run [] x)"
proof (induction v and xs and kvs rule: JSON_stringify_stringify_elems_stringify_members.induct)
  case (1 s)
  show ?case
  proof (intro allI impI)
    fix n x
    assume "length (JSON_stringify (QStr s)) \<le> n"
    then obtain m where n: "n = Suc m" by (cases n) (simp_all add: quote_def)
    obtain r where r: "replace_run [] (quote s @ x) = CHR 0x22 # r"
      using replaced_quote_head by blast
    with parse_replaced_quote [of s x] have "parse_string_body r = Some (rewrite_string s, replace_run [] x)"
      by simp
    with r n show "parse_value n (replace_run [] (JSON_stringify (QStr s) @ x))
        = Some (rewrite_value (QStr s), replace_run [] x)"
      by simp
  qed
next
  case (2 xs)
  show ?case
  proof (intro allI impI)
    fix n x
    assume len: "length (JSON_stringify (QArr xs)) \<le> n"
    then obtain m where n: "n = Suc m" by (cases n) simp_all
    have shape: "replace_run [] (JSON_stringify (QArr xs) @ x)
        = CHR ''['' # replace_run [] (stringify_elems xs @ CHR '']'' # x)"
      by (simp add: structural_not_word)
    show "parse_value n (replace_run [] (JSON_stringify (QArr xs) @ x))
        = Some (rewrite_value (QArr xs), replace_run [] x)"
    proof (cases "xs = []")
      case True
      with n shape show ?thesis by (simp add: structural_not_word)
    next
      case False
      from replaced_elems_head [OF False] obtain c r where
        cr: "replace_run [] (stringify_elems xs @ CHR '']'' # x) = c # r" "c \<noteq> CHR '']''"
        by blast
      from len n have "length (stringify_elems xs) < m" by simp
      with "2" False have "parse_elems m (replace_run [] (stringify_elems xs @ CHR '']'' # x))
          = Some (map rewrite_value xs, replace_run [] x)" by blast
      with cr n shape show ?thesis by simp
    qed
  qed
next
  case (3 kvs)
  show ?case
  proof (intro allI impI)
    fix n x
    assume len: "length (JSON_stringify (QObj kvs)) \<le> n"
    then obtain m where n: "n = Suc m" by (cases n) simp_all
    have shape: "replace_run [] (JSON_stringify (QObj kvs) @ x)
        = CHR ''{'' # replace_run [] (stringify_members kvs @ CHR ''}'' # x)"
      by (simp add: structural_not_word)
    show "parse_value n (replace_run [] (JSON_stringify (QObj kvs) @ x))
        = Some (rewrite_value (QObj kvs), replace_run [] x)"
    proof (cases "kvs = []")
      case True
      with n shape show ?thesis by (simp add: structural_not_word object_of_def)
    next
      case False
      from replaced_members_head [OF False] obtain r where
        cr: "replace_run [] (stringify_members kvs @ CHR ''}'' # x) = CHR 0x22 # r"
        by blast
      from len n have "length (stringify_members kvs) < m" by simp
      with "3" False have "parse_members m (replace_run [] (stringify_members kvs @ CHR ''}'' # x))
          = Some (map (\<lambda>(k, v). (rewrite_string k, rewrite_value v)) kvs, replace_run [] x)"
        by blast
      with cr n shape show ?thesis by simp
    qed
  qed
next
  case 4
  show ?case by simp
next
  case (5 v)
  show ?case
  proof (intro allI impI)
    fix n x
    assume "length (stringify_elems [v]) < n"
    then obtain m where n: "n = Suc m" and m: "length (JSON_stringify v) \<le> m"
      by (cases n) simp_all
    from "5" m have "parse_value m (replace_run [] (JSON_stringify v @ CHR '']'' # x))
        = Some (rewrite_value v, replace_run [] (CHR '']'' # x))" by blast
    with n show "parse_elems n (replace_run [] (stringify_elems [v] @ CHR '']'' # x))
        = Some (map rewrite_value [v], replace_run [] x)"
      by (simp add: structural_not_word)
  qed
next
  case (6 v y ys)
  show ?case
  proof (intro allI impI)
    fix n x
    assume "length (stringify_elems (v # y # ys)) < n"
    then obtain m where n: "n = Suc m" and m: "length (JSON_stringify v) \<le> m"
      and m': "length (stringify_elems (y # ys)) < m"
      by (cases n) simp_all
    from "6"(1) m have "parse_value m (replace_run [] (JSON_stringify v @ CHR '','' # stringify_elems (y # ys) @ CHR '']'' # x))
        = Some (rewrite_value v, replace_run [] (CHR '','' # stringify_elems (y # ys) @ CHR '']'' # x))"
      by blast
    moreover from "6"(2) m' have "parse_elems m (replace_run [] (stringify_elems (y # ys) @ CHR '']'' # x))
        = Some (map rewrite_value (y # ys), replace_run [] x)" by blast
    ultimately show "parse_elems n (replace_run [] (stringify_elems (v # y # ys) @ CHR '']'' # x))
        = Some (map rewrite_value (v # y # ys), replace_run [] x)"
      using n by (simp add: structural_not_word)
  qed
next
  case 7
  show ?case by simp
next
  case (8 k v)
  show ?case
  proof (intro allI impI)
    fix n x
    assume "length (stringify_members [(k, v)]) < n"
    then obtain m where n: "n = Suc m" and m: "length (JSON_stringify v) \<le> m"
      by (cases n) simp_all
    let ?rest = "CHR '':'' # JSON_stringify v @ CHR ''}'' # x"
    obtain r where r: "replace_run [] (quote k @ ?rest) = CHR 0x22 # r"
      using replaced_quote_head by blast
    with parse_replaced_quote [of k ?rest]
    have key: "parse_string_body r = Some (rewrite_string k, replace_run [] ?rest)" by simp
    from "8" m have "parse_value m (replace_run [] (JSON_stringify v @ CHR ''}'' # x))
        = Some (rewrite_value v, replace_run [] (CHR ''}'' # x))" by blast
    with n r key show "parse_members n (replace_run [] (stringify_members [(k, v)] @ CHR ''}'' # x))
        = Some (map (\<lambda>(k, v). (rewrite_string k, rewrite_value v)) [(k, v)], replace_run [] x)"
      by (simp add: structural_not_word)
  qed
next
  case (9 k v kv kvs)
  show ?case
  proof (intro allI impI)
    fix n x
    assume "length (stringify_members ((k, v) # kv # kvs)) < n"
    then obtain m where n: "n = Suc m" and m: "length (JSON_stringify v) \<le> m"
      and m': "length (stringify_members (kv # kvs)) < m"
      by (cases n) simp_all
    let ?tail = "stringify_members (kv # kvs) @ CHR ''}'' # x"
    let ?rest = "CHR '':'' # JSON_stringify v @ CHR '','' # ?tail"
    obtain r where r: "replace_run [] (quote k @ ?rest) = CHR 0x22 # r"
      using replaced_quote_head by blast
    with parse_replaced_quote [of k ?rest]
    have key: "parse_string_body r = Some (rewrite_string k, replace_run [] ?rest)" by simp
    from "9"(1) m have "parse_value m (replace_run [] (JSON_stringify v @ CHR '','' # ?tail))
        = Some (rewrite_value v, replace_run [] (CHR '','' # ?tail))" by blast
    moreover from "9"(2) m' have "parse_members m (replace_run [] ?tail)
        = Some (map (\<lambda>(k, v). (rewrite_string k, rewrite_value v)) (kv # kvs), replace_run [] x)"
      by blast
    ultimately show "parse_members n (replace_run [] (stringify_members ((k, v) # kv # kvs) @ CHR ''}'' # x))
        = Some (map (\<lambda>(k, v). (rewrite_string k, rewrite_value v)) ((k, v) # kv # kvs), replace_run [] x)"
      using n r key by (simp add: structural_not_word)
  qed
qed

lemma length_replace_run: "length w + length x \<le> length (replace_run w x)"
proof (induction x arbitrary: w)
  case Nil
  show ?case by (simp add: mark_def)
next
  case (Cons c x)
  show ?case
  proof (cases "is_word_char c")
    case True
    with Cons [of "w @ [c]"] show ?thesis by simp
  next
    case False
    with Cons [of "[]"] show ?thesis by (simp add: mark_def)
  qed
qed

lemma JSON_round_trip:
  "JSON_parse (replace_operators (JSON_stringify v)) = Some (rewrite_value v)"
proof -
  let ?t = "replace_run [] (JSON_stringify v)"
  have "length (JSON_stringify v) \<le> Suc (length ?t)"
    using length_replace_run [of "[]" "JSON_stringify v"] by simp
  with parse_replaced(1) [of v]
  have "parse_value (Suc (length ?t)) (replace_run [] (JSON_stringify v @ []))
        = Some (rewrite_value v, replace_run [] [])" by blast
  then show ?thesis
    by (simp add: JSON_parse_def replace_operators_def)
qed

lemma filter_op_result:
  "filter_op this
   = Inr (this\<lparr>query := find_q
            (rewrite_value (QObj (foldl (\<lambda>obj key. delete_key key obj) (queryStr this) removeFields)))
            (query this)\<rparr>)"
  by (simp add: filter_op_def JSON_round_trip del: JSON_stringify.simps rewrite_value.simps)

lemma set_member_keys: "fst ` set (set_member k v kvs) = insert k (fst ` set kvs)"
  by (force simp: set_member_def image_iff split: if_splits)

lemma foldl_set_member_keys:
  "fst ` set (foldl (\<lambda>acc (k, v). set_member k v acc) acc kvs) = fst ` set acc \<union> fst ` set kvs"
proof (induction kvs arbitrary: acc)
  case Nil
  show ?case by simp
next
  case (Cons kv kvs)
  obtain k v where kv: "kv = (k, v)" by (cases kv)
  have "fst ` set (foldl (\<lambda>acc (k, v). set_member k v acc) (set_member k v acc) kvs)
        = insert k (fst ` set acc) \<union> fst ` set kvs"
    by (simp add: Cons set_member_keys)
  then show ?case by (simp add: kv)
qed

lemma object_of_keys: "fst ` set (object_of kvs) = fst ` set kvs"
  by (simp add: object_of_def foldl_set_member_keys)

lemma object_of_empty: "(object_of kvs = []) = (kvs = [])"
  using object_of_keys [of kvs] by (cases kvs) auto

lemma kept_keys:
  "set (foldl (\<lambda>obj key. delete_key key obj) qs removeFields)
   = {kv \<in> set qs. fst kv \<notin> set removeFields}"
  by (auto simp: removeFields_def delete_key_def)

lemma rewrite_run_unmarked:
  "CHR ''$'' \<notin> set (rewrite_run clean w s) \<Longrightarrow> rewrite_run clean w s = w @ s"
proof (induction s arbitrary: clean w)
  case Nil
  then show ?case by (auto simp: flush_def mark_def split: if_splits)
next
  case (Cons c s)
  show ?case
  proof (cases "is_word_char c")
    case True
    with Cons.prems Cons.IH [of clean "w @ [c]"] show ?thesis by simp
  next
    case False
    with Cons.prems have "CHR ''$'' \<notin> set (flush clean w)"
      and "CHR ''$'' \<notin> set (rewrite_run (32 \<le> (of_char c :: nat)) [] s)" by auto
    with Cons.IH [of "32 \<le> (of_char c :: nat)" "[]"] False show ?thesis
      by (auto simp: flush_def mark_def split: if_splits)
  qed
qed

lemma rewrite_string_reserved:
  assumes "rewrite_string k \<in> set removeFields"
  shows "rewrite_string k = k"
proof -
  from assms have "CHR ''$'' \<notin> set (rewrite_string k)"
    by (auto simp: removeFields_def)
  then show ?thesis
    using rewrite_run_unmarked [of True "[]" k] by (simp add: rewrite_string_def)
qed

lemma rewrite_run_word:
  "list_all is_word_char k \<Longrightarrow> rewrite_run True w k = mark (w @ k)"
  by (induction k arbitrary: w) (simp_all add: flush_def)

lemma rewrite_string_word:
  "list_all is_word_char k \<Longrightarrow> rewrite_string k = (if k \<in> set operators then CHR ''$'' # k else k)"
  by (simp add: rewrite_string_def rewrite_run_word mark_def)

subsection \<open>The keys of the filter condition\<close>

text \<open>
  Claim C5 says that the condition has exactly the top-level keys of the parameters other
  than \<open>keyword\<close>, \<open>page\<close>, \<open>limit\<close>. The replacement works on the serialized text, keys
  included: the parameter key \<open>lt\<close> becomes the condition key \<open>$lt\<close>.
\<close>

theorem filter_operator_key_counterexample:
  "filter_op (new_ApiFeatures new_query [(''lt'', QStr ''5'')])
     = Inr \<lparr>query = \<lparr>find_calls = [QObj [(''$lt'', QStr ''5'')]], limit_call = None,
                      skip_call = None\<rparr>,
            queryStr = [(''lt'', QStr ''5'')]\<rparr>
   \<and> ''lt'' \<notin> set removeFields \<and> ''lt'' \<noteq> ''$lt''"
proof -
  have "JSON_parse (replace_operators (JSON_stringify (QObj [(''lt'', QStr ''5'')])))
        = Some (QObj [(''$lt'', QStr ''5'')])"
    by code_simp
  then show ?thesis
    by (simp add: filter_op_def new_ApiFeatures_def new_query_def removeFields_def
        delete_key_def find_q_def del: JSON_stringify.simps)
qed

text \<open>
  Claim C5, amended. For every parameter mapping \<open>filter()\<close> completes and passes one
  object as condition. Its keys are the rewritten top-level keys of the parameters other
  than \<open>keyword\<close>, \<open>page\<close>, \<open>limit\<close>; none of these three is a key of the condition; the
  condition is empty exactly when no key remains, and then every document satisfies it.
  A key made of letters, digits and underscores is kept as it is, unless it is one of
  \<open>gt\<close>, \<open>gte\<close>, \<open>lt\<close>, \<open>lte\<close>, which get the prefix \<open>$\<close>.
\<close>

theorem filter_condition_keys:
  "\<exists>c. filter_op this = Inr (this\<lparr>query := find_q (QObj c) (query this)\<rparr>)
      \<and> fst ` set c = rewrite_string ` (fst ` set (queryStr this) - set removeFields)
      \<and> fst ` set c \<inter> set removeFields = {}
      \<and> (c = []) = (fst ` set (queryStr this) \<subseteq> set removeFields)
      \<and> (c = [] \<longrightarrow> cond_holds doc (QObj c) = Some True)
      \<and> (\<forall>k. list_all is_word_char k \<longrightarrow>
             rewrite_string k = (if k \<in> set operators then CHR ''$'' # k else k))"
proof -
  define kept where "kept = foldl (\<lambda>obj key. delete_key key obj) (queryStr this) removeFields"
  define c where "c = object_of (map (\<lambda>(k, v). (rewrite_string k, rewrite_value v)) kept)"
  have run: "filter_op this = Inr (this\<lparr>query := find_q (QObj c) (query this)\<rparr>)"
    by (simp add: filter_op_result c_def kept_def)
  have kept_keys': "fst ` set kept = fst ` set (queryStr this) - set removeFields"
    unfolding kept_def kept_keys by force
  have "fst ` set c = fst ` set (map (\<lambda>(k, v). (rewrite_string k, rewrite_value v)) kept)"
    by (simp add: c_def object_of_keys)
  also have "\<dots> = rewrite_string ` fst ` set kept"
    by force
  finally have keys: "fst ` set c = rewrite_string ` (fst ` set (queryStr this) - set removeFields)"
    by (simp add: kept_keys')
  have reserved: "fst ` set c \<inter> set removeFields = {}"
  proof (rule ccontr)
    assume "fst ` set c \<inter> set removeFields \<noteq> {}"
    then obtain k where k: "k \<in> fst ` set (queryStr this)" "k \<notin> set removeFields"
      "rewrite_string k \<in> set removeFields"
      unfolding keys by blast
    from rewrite_string_reserved [OF k(3)] k show False by simp
  qed
  have empty: "(c = []) = (fst ` set (queryStr this) \<subseteq> set removeFields)"
  proof -
    have "(c = []) = (kept = [])" by (simp add: c_def object_of_empty)
    also have "\<dots> = (fst ` set kept = {})" by simp
    also have "\<dots> = (fst ` set (queryStr this) \<subseteq> set removeFields)"
      unfolding kept_keys' by blast
    finally show ?thesis .
  qed
  have holds: "c = [] \<longrightarrow> cond_holds doc (QObj c) = Some True"
    by (simp add: empty_condition_holds)
  have word: "\<forall>k. list_all is_word_char k \<longrightarrow>
             rewrite_string k = (if k \<in> set operators then CHR ''$'' # k else k)"
    by (simp add: rewrite_string_word)
  from run keys reserved empty holds word show ?thesis
    by (intro exI [of _ c] conjI)
qed

lemma listing_keys:
  "fst ` set (queryStr (new_ApiFeatures new_query listing_params)) - set removeFields = {''category''}"
  by (simp add: new_ApiFeatures_def listing_params_def removeFields_def)

lemma category_word: "list_all is_word_char ''category''"
  by (simp add: is_word_char_def)

theorem filter_condition_keys_witness:
  "\<exists>c. filter_op (new_ApiFeatures new_query listing_params)
          = Inr ((new_ApiFeatures new_query listing_params)
                   \<lparr>query := find_q (QObj c) (query (new_ApiFeatures new_query listing_params))\<rparr>)
      \<and> fst ` set c = rewrite_string ` (fst ` set (queryStr (new_ApiFeatures new_query listing_params))
                                          - set removeFields)
      \<and> fst ` set (queryStr (new_ApiFeatures new_query listing_params)) - set removeFields
          = {''category''}
      \<and> list_all is_word_char ''category''
      \<and> rewrite_string ''category'' = ''category''
      \<and> fst ` set c = {''category''}"
proof -
  let ?this = "new_ApiFeatures new_query listing_params"
  obtain c where full:
    "filter_op ?this = Inr (?this\<lparr>query := find_q (QObj c) (query ?this)\<rparr>)
      \<and> fst ` set c = rewrite_string ` (fst ` set (queryStr ?this) - set removeFields)
      \<and> fst ` set c \<inter> set removeFields = {}
      \<and> (c = []) = (fst ` set (queryStr ?this) \<subseteq> set removeFields)
      \<and> (c = [] \<longrightarrow> cond_holds [] (QObj c) = Some True)
      \<and> (\<forall>k. list_all is_word_char k \<longrightarrow>
             rewrite_string k = (if k \<in> set operators then CHR ''$'' # k else k))"
    using filter_condition_keys [of ?this "[]"] ..
  note run = full [THEN conjunct1]
  note keys = full [THEN conjunct2, THEN conjunct1]
  note word = full [THEN conjunct2, THEN conjunct2, THEN conjunct2, THEN conjunct2, THEN conjunct2]
  from word category_word have same: "rewrite_string ''category'' = ''category''"
    by (simp add: operators_def)
  have "fst ` set c = {''category''}"
    unfolding keys listing_keys using same by simp
  with run keys listing_keys category_word same show ?thesis
    by (intro exI [of _ c] conjI)
qed

end
